theory Spec2Isabelle
  imports Main "HOL-Library.AList"
begin

section \<open>Python values used by \<open>dhl_sdk/crud.py\<close>\<close>

text \<open>
  Exceptions are values. \<open>External\<close> stands for whatever an injected collaborator
  (the HTTP client or the entity constructor) raises; the module itself raises
  \<open>StopIteration\<close>, and the Python runtime raises the other ones on its behalf.
\<close>

datatype error =
    StopIteration
  | TypeError
  | ValueError
  | JSONDecodeError
  | IndexError
  | External string

text \<open>
  A decoded JSON document, as \<open>response.json()\<close> returns it. A JSON object is a Python
  \<open>dict\<close>, kept as an association list in insertion order. Floats are carried by
  their literal: the module never looks at a number.
\<close>

datatype json =
    JNull
  | JBool bool
  | JInt int
  | JFloat string
  | JString string
  | JArray "json list"
  | JObject "(string \<times> json) list"

text \<open>
  \<open>Dict[str, str]\<close>: an association list in insertion order. \<open>d |= e\<close> overwrites the
  value of a key that is present, in place, and appends a key that is not.
\<close>

type_synonym qparams = "(string \<times> string) list"

definition dict_ior :: "qparams \<Rightarrow> qparams \<Rightarrow> qparams" where
  "dict_ior d e = fold (\<lambda>(k, v). AList.update k v) e d"

subsection \<open>\<open>str(int)\<close>\<close>

definition digit_char :: "nat \<Rightarrow> char" where
  "digit_char d = ''0123456789'' ! d"

fun digits10 :: "nat \<Rightarrow> string" where
  "digits10 n = (if n < 10 then [digit_char n] else digits10 (n div 10) @ [digit_char (n mod 10)])"

declare digits10.simps [simp del]

definition py_str :: "int \<Rightarrow> string" where
  "py_str i = (if i < 0 then CHR ''-'' # digits10 (nat (- i)) else digits10 (nat i))"

subsection \<open>\<open>int(str)\<close>\<close>

text \<open>
  \<open>int(s)\<close> in base 10 on a string of code points below 256 (a header value of the
  \<open>requests\<close> library is decoded as Latin-1): surrounding white space (code points 9 to
  13, 32, 133 and 160) is stripped, one sign is allowed, and the digits may be grouped by
  single underscores. Anything else raises \<open>ValueError\<close>. (The interpreter's optional limit on the number of digits is not
  modelled.)
\<close>

definition py_isspace :: "char \<Rightarrow> bool" where
  "py_isspace c = (of_char c \<in> set [9, 10, 11, 12, 13, 32, 133, 160 :: nat])"

definition py_strip :: "string \<Rightarrow> string" where
  "py_strip s = rev (dropWhile py_isspace (rev (dropWhile py_isspace s)))"

definition is_digit :: "char \<Rightarrow> bool" where
  "is_digit c = (48 \<le> (of_char c :: nat) \<and> (of_char c :: nat) \<le> 57)"

definition digit_val :: "char \<Rightarrow> nat" where
  "digit_val c = of_char c - 48"

text \<open>The digits after the first one: \<open>acc\<close> is the value read so far.\<close>

fun digits_value :: "nat \<Rightarrow> string \<Rightarrow> nat option" where
  "digits_value acc [] = Some acc"
| "digits_value acc (c # cs) =
     (if is_digit c then digits_value (acc * 10 + digit_val c) cs
      else if c = CHR ''_'' then
        (case cs of
           [] \<Rightarrow> None
         | d # ds \<Rightarrow> if is_digit d then digits_value (acc * 10 + digit_val d) ds else None)
      else None)"

definition unsigned_value :: "string \<Rightarrow> nat option" where
  "unsigned_value s =
     (case s of
        [] \<Rightarrow> None
      | d # ds \<Rightarrow> if is_digit d then digits_value (digit_val d) ds else None)"

definition int_literal :: "string \<Rightarrow> int option" where
  "int_literal s =
     (case py_strip s of
        [] \<Rightarrow> None
      | c # cs \<Rightarrow>
          if c = CHR ''-'' then map_option (\<lambda>n. - int n) (unsigned_value cs)
          else if c = CHR ''+'' then map_option int (unsigned_value cs)
          else map_option int (unsigned_value (c # cs)))"

text \<open>\<open>int(x)\<close> for \<open>x\<close> a string or \<open>None\<close>, as \<open>headers.get\<close> returns it.\<close>

definition py_int :: "string option \<Rightarrow> error + int" where
  "py_int x =
     (case x of
        None \<Rightarrow> Inl TypeError
      | Some s \<Rightarrow> (case int_literal s of None \<Rightarrow> Inl ValueError | Some i \<Rightarrow> Inr i))"

section \<open>The collaborators\<close>

text \<open>
  \<open>requests.Response\<close>, as far as the module reads it: \<open>headers\<close> is
  \<open>response.headers.get\<close>, \<open>body\<close> is \<open>response.json()\<close> with \<open>None\<close> where
  decoding raises. \<open>status\<close> is the status code, which the module never reads.
\<close>

record response =
  status :: int
  headers :: "string \<Rightarrow> string option"
  body :: "json option"

text \<open>
  What the program does to the outside, in order: a GET issued through the HTTP client
  (path and query parameters as they are at the call), and a call of the entity constructor
  (its keyword arguments).
\<close>

datatype event =
    Get string "qparams option"
  | Construct "(string \<times> json) list"

fun is_Get :: "event \<Rightarrow> bool" where
  "is_Get (Get p q) = True"
| "is_Get (Construct kvs) = False"

definition gets :: "event list \<Rightarrow> nat" where
  "gets t = length (filter is_Get t)"

text \<open>
  The state outside a \<open>Result\<close>: the contents of the \<open>dict\<close> objects, by address
  (a caller and a \<open>Result\<close> may hold the same object), and the trace of events.
\<close>

record world =
  dicts :: "nat \<Rightarrow> qparams"
  trace :: "event list"

text \<open>
  \<open>CRUDClient\<close>: the HTTP client's \<open>get\<close> (\<open>class Client\<close>; it may answer by the
  events so far, and it returns a response or raises), the base path, and the constructor
  (\<open>class Constructor\<close>).
\<close>

record 'a CRUDClient =
  client :: "event list \<Rightarrow> string \<Rightarrow> qparams option \<Rightarrow> error + response"
  base_url :: string
  constructor :: "(string \<times> json) list \<Rightarrow> error + 'a"

section \<open>\<open>CRUDClient\<close>\<close>

text \<open>
  \<open>self._constructor(**entity, client=self._client)\<close>: \<open>**\<close> needs a mapping, and a
  key \<open>client\<close> in it collides with the keyword; both raise \<open>TypeError\<close> before the
  constructor is entered.
\<close>

definition construct :: "'a CRUDClient \<Rightarrow> json \<Rightarrow> world \<Rightarrow> (error + 'a) \<times> world" where
  "construct c entity w =
     (case entity of
        JObject kvs \<Rightarrow>
          if ''client'' \<in> set (map fst kvs) then (Inl TypeError, w)
          else (constructor c kvs, w\<lparr>trace := trace w @ [Construct kvs]\<rparr>)
      | _ \<Rightarrow> (Inl TypeError, w))"

text \<open>\<open>for entity in response.json()\<close>: what iterating the decoded body yields.\<close>

definition py_iter :: "json \<Rightarrow> error + json list" where
  "py_iter j =
     (case j of
        JArray xs \<Rightarrow> Inr xs
      | JObject kvs \<Rightarrow> Inr (map (\<lambda>kv. JString (fst kv)) kvs)
      | JString s \<Rightarrow> Inr (map (\<lambda>ch. JString [ch]) s)
      | _ \<Rightarrow> Inl TypeError)"

text \<open>The list comprehension: it stops at the first constructor call that raises.\<close>

fun construct_all :: "'a CRUDClient \<Rightarrow> json list \<Rightarrow> world \<Rightarrow> (error + 'a list) \<times> world" where
  "construct_all c [] w = (Inr [], w)"
| "construct_all c (entity # rest) w =
     (case construct c entity w of
        (Inl e, w1) \<Rightarrow> (Inl e, w1)
      | (Inr x, w1) \<Rightarrow>
          (case construct_all c rest w1 of
             (Inl e, w2) \<Rightarrow> (Inl e, w2)
           | (Inr xs, w2) \<Rightarrow> (Inr (x # xs), w2)))"

definition CRUDClient_get :: "'a CRUDClient \<Rightarrow> string \<Rightarrow> world \<Rightarrow> (error + 'a) \<times> world" where
  "CRUDClient_get c entity_id w =
     (let path = base_url c @ ''/'' @ entity_id;
          w1 = w\<lparr>trace := trace w @ [Get path None]\<rparr>
      in case client c (trace w) path None of
           Inl e \<Rightarrow> (Inl e, w1)
         | Inr response \<Rightarrow>
             (case body response of
                None \<Rightarrow> (Inl JSONDecodeError, w1)
              | Some entity \<Rightarrow> construct c entity w1))"

text \<open>The reserved entries of lines 54 to 59.\<close>

definition reserved :: "int \<Rightarrow> int \<Rightarrow> qparams" where
  "reserved offset limit =
     [(''offset'', py_str offset),
      (''limit'', py_str limit),
      (''archived'', ''false''),
      (''sortBy[createdAt]'', ''desc'')]"

text \<open>
  \<open>query_params = query_params or {}\<close> followed by \<open>|=\<close>: \<open>None\<close> and the empty
  \<open>dict\<close> are both falsy, so a fresh \<open>dict\<close> is filled and the caller's object is left
  alone; a non-empty \<open>dict\<close> is updated in place. The result is the \<open>dict\<close> sent and
  the world after the update.
\<close>

definition merge_query ::
  "nat option \<Rightarrow> int \<Rightarrow> int \<Rightarrow> world \<Rightarrow> qparams \<times> world" where
  "merge_query query_params offset limit w =
     (case query_params of
        None \<Rightarrow> (dict_ior [] (reserved offset limit), w)
      | Some a \<Rightarrow>
          if dicts w a = [] then (dict_ior [] (reserved offset limit), w)
          else (let d = dict_ior (dicts w a) (reserved offset limit)
                in (d, w\<lparr>dicts := (dicts w)(a := d)\<rparr>)))"

definition CRUDClient_list ::
  "'a CRUDClient \<Rightarrow> int \<Rightarrow> int \<Rightarrow> nat option \<Rightarrow> world \<Rightarrow> (error + 'a list \<times> int) \<times> world" where
  "CRUDClient_list c offset limit query_params w =
     (case merge_query query_params offset limit w of
        (d, w1) \<Rightarrow>
          (let w2 = w1\<lparr>trace := trace w1 @ [Get (base_url c) (Some d)]\<rparr>
           in case client c (trace w) (base_url c) (Some d) of
                Inl e \<Rightarrow> (Inl e, w2)
              | Inr response \<Rightarrow>
                  (case py_int (headers response ''x-total-count'') of
                     Inl e \<Rightarrow> (Inl e, w2)
                   | Inr t \<Rightarrow>
                       (case body response of
                          None \<Rightarrow> (Inl JSONDecodeError, w2)
                        | Some j \<Rightarrow>
                            (case py_iter j of
                               Inl e \<Rightarrow> (Inl e, w2)
                             | Inr items \<Rightarrow>
                                 (case construct_all c items w2 of
                                    (Inl e, w3) \<Rightarrow> (Inl e, w3)
                                  | (Inr entities, w3) \<Rightarrow> (Inr (entities, t), w3)))))))"

section \<open>\<open>Result\<close>\<close>

record 'a Result =
  data :: "'a list"
  limit :: int
  offset :: int
  total' :: "int option"
  query_params :: "nat option"
  requests :: "'a CRUDClient"

definition Result_init :: "int \<Rightarrow> int \<Rightarrow> nat option \<Rightarrow> 'a CRUDClient \<Rightarrow> 'a Result" where
  "Result_init offset0 limit0 qp rq =
     \<lparr>data = [], limit = limit0, offset = offset0, total' = None,
      query_params = qp, requests = rq\<rparr>"

definition Result_fetch_next :: "'a Result \<Rightarrow> world \<Rightarrow> (error + unit) \<times> 'a Result \<times> world" where
  "Result_fetch_next r w =
     (case CRUDClient_list (requests r) (offset r) (limit r) (query_params r) w of
        (Inl e, w1) \<Rightarrow> (Inl e, r, w1)
      | (Inr (entities, t), w1) \<Rightarrow>
          (let r1 = r\<lparr>offset := offset r + limit r,
                      data := data r @ entities,
                      total' := Some t\<rparr>
           in if length (data r1) = 0 then (Inl StopIteration, r1, w1)
              else (Inr (), r1, w1)))"

definition popleft :: "'a Result \<Rightarrow> world \<Rightarrow> (error + 'a) \<times> 'a Result \<times> world" where
  "popleft r w =
     (case data r of
        [] \<Rightarrow> (Inl IndexError, r, w)
      | x # xs \<Rightarrow> (Inr x, r\<lparr>data := xs\<rparr>, w))"

definition Result_next :: "'a Result \<Rightarrow> world \<Rightarrow> (error + 'a) \<times> 'a Result \<times> world" where
  "Result_next r w =
     (if data r = [] then
        (case Result_fetch_next r w of
           (Inl e, r1, w1) \<Rightarrow> (Inl e, r1, w1)
         | (Inr u, r1, w1) \<Rightarrow> popleft r1 w1)
      else popleft r w)"

definition Result_len :: "'a Result \<Rightarrow> world \<Rightarrow> (error + int) \<times> 'a Result \<times> world" where
  "Result_len r w =
     (case total' r of
        None \<Rightarrow>
          (case CRUDClient_list (requests r) 0 0 (query_params r) w of
             (Inl e, w1) \<Rightarrow> (Inl e, r, w1)
           | (Inr (entities, t), w1) \<Rightarrow> (Inr t, r\<lparr>total' := Some t\<rparr>, w1))
      | Some t \<Rightarrow> (Inr t, r, w))"

definition Result_is_empty :: "'a Result \<Rightarrow> bool" where
  "Result_is_empty r = (total' r = Some 0)"

text \<open>
  Iterating to exhaustion (\<open>for x in result\<close>, collecting): \<open>__next__\<close> is called until
  it raises; \<open>StopIteration\<close> ends the loop with what was collected, any other exception
  leaves it. The loop need not end, so not returning is \<open>None\<close>.
\<close>

partial_function (option) exhaust ::
  "'a list \<Rightarrow> 'a Result \<Rightarrow> world \<Rightarrow> ((error + 'a list) \<times> 'a Result \<times> world) option" where
  "exhaust acc r w =
     (case Result_next r w of
        (Inl e, r1, w1) \<Rightarrow> Some (if e = StopIteration then Inr acc else Inl e, r1, w1)
      | (Inr x, r1, w1) \<Rightarrow> exhaust (acc @ [x]) r1 w1)"

section \<open>Vocabulary of the properties\<close>

text \<open>
  A decimal integer string, in the words of the specification (section 6, the wire format
  of \<open>x-total-count\<close>): decimal digits, at least one, after an optional sign. This
  definition does not come from the code.
\<close>

definition decimal_integer_string :: "string \<Rightarrow> bool" where
  "decimal_integer_string s =
     (case s of
        [] \<Rightarrow> False
      | c # cs \<Rightarrow>
          if c = CHR ''-'' \<or> c = CHR ''+'' then cs \<noteq> [] \<and> list_all is_digit cs
          else list_all is_digit (c # cs))"

text \<open>
  The syntax of a base-10 argument of \<open>int\<close>, stated on the string as a whole and not by
  a reading of it: between optional white space, an optional sign and then a group of
  characters that starts and ends with a digit, consists of digits and underscores, and has
  no two underscores in a row.
\<close>

fun no_double_underscore :: "string \<Rightarrow> bool" where
  "no_double_underscore [] = True"
| "no_double_underscore [a] = True"
| "no_double_underscore (a # b # cs) =
     (\<not> (a = CHR ''_'' \<and> b = CHR ''_'') \<and> no_double_underscore (b # cs))"

definition digit_group :: "string \<Rightarrow> bool" where
  "digit_group s =
     (s \<noteq> [] \<and> is_digit (hd s) \<and> is_digit (last s) \<and>
      list_all (\<lambda>c. is_digit c \<or> c = CHR ''_'') s \<and> no_double_underscore s)"

definition int_syntax :: "string \<Rightarrow> bool" where
  "int_syntax s =
     (let t = py_strip s
      in digit_group (if t \<noteq> [] \<and> (hd t = CHR ''-'' \<or> hd t = CHR ''+'') then tl t else t))"

text \<open>The four reserved entries, as a caller reads them out of a \<open>dict\<close>.\<close>

definition carries_reserved :: "qparams \<Rightarrow> int \<Rightarrow> int \<Rightarrow> bool" where
  "carries_reserved d off lim =
     (map_of d ''offset'' = Some (py_str off) \<and>
      map_of d ''limit'' = Some (py_str lim) \<and>
      map_of d ''archived'' = Some ''false'' \<and>
      map_of d ''sortBy[createdAt]'' = Some ''desc'')"

definition reserved_key :: "string \<Rightarrow> bool" where
  "reserved_key k = (k \<in> set [''offset'', ''limit'', ''archived'', ''sortBy[createdAt]''])"

text \<open>The mapping the caller supplied: \<open>None\<close> counts as no entries.\<close>

definition supplied :: "nat option \<Rightarrow> world \<Rightarrow> qparams" where
  "supplied qp w = (case qp of None \<Rightarrow> [] | Some a \<Rightarrow> dicts w a)"

subsection \<open>Collaborators to run the code against\<close>

text \<open>
  A server of offset/limit pagination over a fixed collection: it answers a listing request
  with the window \<open>[offset, offset + limit)\<close> of the collection and the collection's size
  in \<open>x-total-count\<close>, and refuses a request without readable \<open>offset\<close> and
  \<open>limit\<close>.
\<close>

definition window_server ::
  "json list \<Rightarrow> event list \<Rightarrow> string \<Rightarrow> qparams option \<Rightarrow> error + response" where
  "window_server es hist path q =
     (case q of
        None \<Rightarrow> Inl (External ''BadRequest'')
      | Some d \<Rightarrow>
          (case py_int (map_of d ''offset'') of
             Inl e \<Rightarrow> Inl (External ''BadRequest'')
           | Inr off \<Rightarrow>
               (case py_int (map_of d ''limit'') of
                  Inl e \<Rightarrow> Inl (External ''BadRequest'')
                | Inr lim \<Rightarrow>
                    Inr \<lparr>status = 200,
                         headers = [''x-total-count'' \<mapsto> py_str (int (length es))],
                         body = Some (JArray (take (nat lim) (drop (nat off) es)))\<rparr>)))"

text \<open>A constructor that keeps the keyword arguments it is given, and never raises.\<close>

definition window_crud :: "(string \<times> json) list list \<Rightarrow> (string \<times> json) list CRUDClient" where
  "window_crud es =
     \<lparr>client = window_server (map JObject es), base_url = ''/things'', constructor = Inr\<rparr>"

text \<open>A transport that answers every request with one fixed response.\<close>

definition static_client ::
  "response \<Rightarrow> event list \<Rightarrow> string \<Rightarrow> qparams option \<Rightarrow> error + response" where
  "static_client resp hist path q = Inr resp"

definition static_crud :: "response \<Rightarrow> (string \<times> json) list CRUDClient" where
  "static_crud resp = \<lparr>client = static_client resp, base_url = ''/things'', constructor = Inr\<rparr>"

text \<open>A transport that raises on every request.\<close>

definition failing_crud :: "error \<Rightarrow> (string \<times> json) list CRUDClient" where
  "failing_crud e = \<lparr>client = (\<lambda>hist path q. Inl e), base_url = ''/things'', constructor = Inr\<rparr>"

text \<open>Status 404 with a JSON error document, and a listing answer without a usable total.\<close>

definition not_found_response :: response where
  "not_found_response =
     \<lparr>status = 404, headers = Map.empty,
      body = Some (JObject [(''message'', JString ''not found'')])\<rparr>"

definition bad_total_response :: response where
  "bad_total_response =
     \<lparr>status = 200, headers = [''x-total-count'' \<mapsto> ''12a''], body = Some (JArray [])\<rparr>"

text \<open>A listing answer whose total is written with an underscore.\<close>

definition grouped_total_response :: response where
  "grouped_total_response =
     \<lparr>status = 200, headers = [''x-total-count'' \<mapsto> ''1_0''], body = Some (JArray [])\<rparr>"

definition world0 :: world where
  "world0 = \<lparr>dicts = (\<lambda>a. []), trace = []\<rparr>"

section \<open>Evaluation and helper facts\<close>

text \<open>
  Unfolding sets for running the definitions on concrete inputs.
\<close>

lemmas py_eval = py_str_def digits10.simps digit_char_def py_int_def int_literal_def py_strip_def
  py_isspace_def unsigned_value_def is_digit_def digit_val_def

lemmas crud_eval = CRUDClient_list_def CRUDClient_get_def merge_query_def dict_ior_def reserved_def
  construct_def py_iter_def window_server_def window_crud_def static_client_def static_crud_def
  failing_crud_def world0_def AList.update.simps bad_total_response_def not_found_response_def

lemmas result_eval = Result_init_def Result_next_def Result_fetch_next_def Result_len_def
  Result_is_empty_def popleft_def

subsection \<open>\<open>int\<close> reads back what \<open>str\<close> writes\<close>

lemma digit_char_digit: "d < 10 \<Longrightarrow> is_digit (digit_char d) \<and> digit_val (digit_char d) = d"
proof -
  assume "d < 10"
  then have "d \<in> {0, 1, 2, 3, 4, 5, 6, 7, 8, 9}" by auto
  then show ?thesis
    by (auto simp: digit_char_def is_digit_def digit_val_def)
qed

lemma is_digit_not_space: "is_digit c \<Longrightarrow> \<not> py_isspace c"
  by (auto simp: is_digit_def py_isspace_def)

lemma is_digit_not_sign: "is_digit c \<Longrightarrow> c \<noteq> CHR ''-'' \<and> c \<noteq> CHR ''+'' \<and> c \<noteq> CHR ''_''"
  by (auto simp: is_digit_def)

lemma digits_value_all_digits:
  "\<forall>c\<in>set s. is_digit c \<Longrightarrow>
     digits_value acc s = Some (foldl (\<lambda>a c. a * 10 + digit_val c) acc s)"
  by (induction s arbitrary: acc) simp_all

lemma digits10_all_digits: "\<forall>c\<in>set (digits10 n). is_digit c"
proof (induction n rule: digits10.induct)
  case (1 n)
  show ?case
  proof (cases "n < 10")
    case True
    then show ?thesis using digit_char_digit [of n] by (subst digits10.simps) simp
  next
    case False
    have "n mod 10 < 10" by simp
    then have "is_digit (digit_char (n mod 10))" using digit_char_digit by blast
    then show ?thesis using False 1 by (subst digits10.simps) simp
  qed
qed

lemma digits10_value: "foldl (\<lambda>a c. a * 10 + digit_val c) 0 (digits10 n) = n"
proof (induction n rule: digits10.induct)
  case (1 n)
  show ?case
  proof (cases "n < 10")
    case True
    then show ?thesis using digit_char_digit [of n] by (subst digits10.simps) simp
  next
    case False
    have "n mod 10 < 10" by simp
    then have "digit_val (digit_char (n mod 10)) = n mod 10" using digit_char_digit by blast
    then show ?thesis using False 1 by (subst digits10.simps) simp
  qed
qed

lemma digits10_nonempty: "digits10 n \<noteq> []"
  by (subst digits10.simps) simp

lemma unsigned_value_digits10: "unsigned_value (digits10 n) = Some n"
proof (cases "digits10 n")
  case Nil
  then show ?thesis using digits10_nonempty by blast
next
  case (Cons d ds)
  have dig: "is_digit d" "\<forall>c\<in>set ds. is_digit c"
    using digits10_all_digits [of n] Cons by simp_all
  have "foldl (\<lambda>a c. a * 10 + digit_val c) (digit_val d) ds = n"
    using digits10_value [of n] Cons by simp
  then show ?thesis
    using dig Cons by (simp add: unsigned_value_def digits_value_all_digits)
qed

lemma py_strip_id:
  "s \<noteq> [] \<Longrightarrow> \<not> py_isspace (hd s) \<Longrightarrow> \<not> py_isspace (last s) \<Longrightarrow> py_strip s = s"
proof -
  assume a: "s \<noteq> []" "\<not> py_isspace (hd s)" "\<not> py_isspace (last s)"
  have 1: "dropWhile py_isspace s = s" using a(1,2) by (cases s) simp_all
  have h: "hd (rev s) = last s" using a(1) by (simp add: hd_rev)
  have 2: "dropWhile py_isspace (rev s) = rev s"
  proof (cases "rev s")
    case Nil
    then show ?thesis by simp
  next
    case (Cons x xs)
    then have "x = last s" using h by simp
    then have "dropWhile py_isspace (x # xs) = x # xs" using a(3) by simp
    then show ?thesis unfolding Cons .
  qed
  show ?thesis by (simp add: py_strip_def 1 2)
qed

lemma digits10_ends: "is_digit (hd (digits10 n)) \<and> is_digit (last (digits10 n))"
  using digits10_all_digits [of n] digits10_nonempty [of n] by simp

lemma int_literal_py_str: "int_literal (py_str i) = Some i"
proof (cases "i < 0")
  case True
  let ?s = "CHR ''-'' # digits10 (nat (- i))"
  have "last ?s = last (digits10 (nat (- i)))" using digits10_nonempty by simp
  then have "\<not> py_isspace (last ?s)" using digits10_ends is_digit_not_space by metis
  moreover have "\<not> py_isspace (hd ?s)" by (simp add: py_isspace_def)
  ultimately have "py_strip ?s = ?s" by (intro py_strip_id) simp_all
  then show ?thesis using True
    by (simp add: int_literal_def py_str_def unsigned_value_digits10)
next
  case False
  let ?s = "digits10 (nat i)"
  obtain d ds where s: "?s = d # ds" using digits10_nonempty [of "nat i"] by (cases ?s) auto
  have e: "is_digit (hd ?s)" "is_digit (last ?s)" using digits10_ends by blast+
  then have "py_strip ?s = ?s" using digits10_nonempty is_digit_not_space by (intro py_strip_id) auto
  moreover have "d \<noteq> CHR ''-'' \<and> d \<noteq> CHR ''+''" using e(1) s is_digit_not_sign by simp
  moreover have "unsigned_value (d # ds) = Some (nat i)" using unsigned_value_digits10 [of "nat i"] s by simp
  ultimately show ?thesis using False s
    by (simp add: int_literal_def py_str_def)
qed

lemma py_int_py_str: "py_int (Some (py_str i)) = Inr i"
  by (simp add: py_int_def int_literal_py_str)

subsection \<open>What \<open>int\<close> accepts\<close>

text \<open>
  The reading of a string by \<open>int_literal\<close> succeeds exactly on the strings of
  \<open>int_syntax\<close>. Every decimal integer string is one of them, and so is \<open>str\<close>
  of an integer.
\<close>

lemma underscore_not_digit: "\<not> is_digit CHR ''_''"
  by (simp add: is_digit_def)

lemma no_double_underscore_digit:
  "is_digit d \<Longrightarrow> no_double_underscore (d # cs) = no_double_underscore cs"
  using underscore_not_digit by (cases cs) auto

lemma digits_value_syntax:
  "(digits_value acc cs \<noteq> None) =
     (list_all (\<lambda>c. is_digit c \<or> c = CHR ''_'') cs \<and> (cs \<noteq> [] \<longrightarrow> is_digit (last cs))
      \<and> no_double_underscore cs)"
proof (induction acc cs rule: digits_value.induct)
  case (1 acc)
  show ?case by simp
next
  case (2 acc c cs)
  show ?case
  proof (cases "is_digit c")
    case True
    then show ?thesis using 2(1) by (simp add: no_double_underscore_digit)
  next
    case False
    note nd = this
    show ?thesis
    proof (cases "c = CHR ''_''")
      case False
      then show ?thesis using nd by simp
    next
      case True
      note us = this
      show ?thesis
      proof (cases cs)
        case Nil
        then show ?thesis using nd us by simp
      next
        case (Cons d ds)
        show ?thesis
        proof (cases "is_digit d")
          case True
          then have "d \<noteq> CHR ''_''" using underscore_not_digit by auto
          then show ?thesis
            using 2(2) [OF nd us Cons True] nd us Cons True
            by (simp add: no_double_underscore_digit)
        next
          case False
          then show ?thesis using nd us Cons by auto
        qed
      qed
    qed
  qed
qed

lemma unsigned_value_syntax: "(unsigned_value s \<noteq> None) = digit_group s"
proof (cases s)
  case Nil
  then show ?thesis by (simp add: unsigned_value_def digit_group_def)
next
  case (Cons d ds)
  show ?thesis
  proof (cases "is_digit d")
    case True
    then show ?thesis
      using Cons digits_value_syntax [of "digit_val d" ds]
      by (auto simp add: unsigned_value_def digit_group_def no_double_underscore_digit)
  next
    case False
    then show ?thesis using Cons by (simp add: unsigned_value_def digit_group_def)
  qed
qed

lemma int_literal_syntax: "(int_literal s \<noteq> None) = int_syntax s"
proof (cases "py_strip s")
  case Nil
  then show ?thesis by (simp add: int_literal_def int_syntax_def digit_group_def)
next
  case (Cons c cs)
  then show ?thesis
    using unsigned_value_syntax [of cs] unsigned_value_syntax [of "c # cs"]
    by (simp add: int_literal_def int_syntax_def)
qed

lemma int_literal_None: "(int_literal s = None) = (\<not> int_syntax s)"
  using int_literal_syntax [of s] by blast

lemma digits_no_double_underscore: "list_all is_digit cs \<Longrightarrow> no_double_underscore cs"
  using underscore_not_digit by (induction cs rule: no_double_underscore.induct) auto

lemma digits_digit_group: "cs \<noteq> [] \<Longrightarrow> list_all is_digit cs \<Longrightarrow> digit_group cs"
proof -
  assume a: "cs \<noteq> []" "list_all is_digit cs"
  have "is_digit (hd cs)" "is_digit (last cs)" using a by (simp_all add: list_all_iff)
  moreover have "list_all (\<lambda>c. is_digit c \<or> c = CHR ''_'') cs" using a(2) by (simp add: list_all_iff)
  ultimately show ?thesis using a digits_no_double_underscore by (simp add: digit_group_def)
qed

lemma decimal_integer_string_int_syntax:
  assumes d: "decimal_integer_string s"
  shows "int_syntax s"
proof (cases s)
  case Nil
  then show ?thesis using d by (simp add: decimal_integer_string_def)
next
  case (Cons c cs)
  show ?thesis
  proof (cases "c = CHR ''-'' \<or> c = CHR ''+''")
    case True
    then have cs: "cs \<noteq> []" "list_all is_digit cs" using d Cons by (simp_all add: decimal_integer_string_def)
    have "\<not> py_isspace (hd s)" using True Cons by (auto simp: py_isspace_def)
    moreover have "is_digit (last s)" using cs Cons by (simp add: list_all_iff)
    ultimately have "py_strip s = s" using Cons is_digit_not_space by (intro py_strip_id) auto
    then show ?thesis using True Cons digits_digit_group [OF cs] by (simp add: int_syntax_def)
  next
    case False
    then have all: "list_all is_digit s" using d Cons by (simp add: decimal_integer_string_def)
    have ne: "s \<noteq> []" using Cons by simp
    have "is_digit (hd s)" "is_digit (last s)" using all ne by (simp_all add: list_all_iff)
    then have "py_strip s = s" using ne is_digit_not_space by (intro py_strip_id) auto
    then show ?thesis using False Cons digits_digit_group [OF ne all] by (simp add: int_syntax_def)
  qed
qed

lemma py_str_decimal: "decimal_integer_string (py_str i)"
proof -
  have all: "list_all is_digit (digits10 n)" for n
    using digits10_all_digits [of n] by (simp add: list_all_iff)
  show ?thesis
  proof (cases "i < 0")
    case True
    then show ?thesis
      using all [of "nat (- i)"] digits10_nonempty [of "nat (- i)"]
      by (simp add: decimal_integer_string_def py_str_def)
  next
    case False
    obtain d ds where c: "digits10 (nat i) = d # ds"
      using digits10_nonempty [of "nat i"] by (cases "digits10 (nat i)") auto
    then have "is_digit d" using all [of "nat i"] by simp
    then have "d \<noteq> CHR ''-'' \<and> d \<noteq> CHR ''+''" using is_digit_not_sign by blast
    then show ?thesis
      using False c all [of "nat i"] by (simp add: decimal_integer_string_def py_str_def)
  qed
qed

subsection \<open>The merged query\<close>

lemma map_of_merged:
  "map_of (dict_ior d (reserved off lim)) k =
     (if k = ''sortBy[createdAt]'' then Some ''desc''
      else if k = ''archived'' then Some ''false''
      else if k = ''limit'' then Some (py_str lim)
      else if k = ''offset'' then Some (py_str off)
      else map_of d k)"
  by (simp add: dict_ior_def reserved_def update_conv')

lemma merged_carries_reserved: "carries_reserved (dict_ior d (reserved off lim)) off lim"
  by (simp add: carries_reserved_def map_of_merged)

lemma merged_pass_through:
  "\<not> reserved_key k \<Longrightarrow> map_of (dict_ior d (reserved off lim)) k = map_of d k"
  by (simp add: reserved_key_def map_of_merged)

lemma fst_merge_query:
  "fst (merge_query qp off lim w) = dict_ior (supplied qp w) (reserved off lim)"
  by (simp add: merge_query_def supplied_def Let_def split: option.splits)

lemma merge_query_trace: "trace (snd (merge_query qp off lim w)) = trace w"
  by (simp add: merge_query_def Let_def split: option.splits)

lemma merge_query_dicts:
  "dicts (snd (merge_query qp off lim w)) =
     (case qp of
        None \<Rightarrow> dicts w
      | Some a \<Rightarrow> if dicts w a = [] then dicts w
                  else (dicts w)(a := dict_ior (dicts w a) (reserved off lim)))"
  by (simp add: merge_query_def Let_def split: option.splits)

subsection \<open>What a listing call does to the world\<close>

text \<open>
  A listing call appends one GET, then one constructor event per entity it builds, and
  touches no \<open>dict\<close> but the caller's.
\<close>

lemma construct_world:
  "\<exists>cs. snd (construct c j w) = w\<lparr>trace := trace w @ map Construct cs\<rparr> \<and> length cs \<le> 1
     \<and> (\<forall>x. fst (construct c j w) = Inr x \<longrightarrow> length cs = 1)"
proof (cases j)
  case (JObject kvs)
  show ?thesis
  proof (cases "''client'' \<in> set (map fst kvs)")
    case True
    then have "snd (construct c j w) = w\<lparr>trace := trace w @ map Construct []\<rparr>" 
       and "fst (construct c j w) = Inl TypeError"
      using JObject by (simp_all add: construct_def)
    then show ?thesis by (metis list.size(3) zero_le sum.distinct(1))
  next
    case False
    then have "snd (construct c j w) = w\<lparr>trace := trace w @ map Construct [kvs]\<rparr>"
      using JObject by (simp add: construct_def)
    then show ?thesis by (metis One_nat_def length_Cons list.size(3) le_refl)
  qed
qed (simp_all add: construct_def exI [of _ "[]"])

lemma construct_all_world:
  "\<exists>cs. snd (construct_all c items w) = w\<lparr>trace := trace w @ map Construct cs\<rparr>
     \<and> (\<forall>xs. fst (construct_all c items w) = Inr xs \<longrightarrow> length cs = length xs)"
proof (induction items arbitrary: w)
  case Nil
  show ?case by (simp add: exI [of _ "[]"])
next
  case (Cons j items)
  obtain cs1 where c1: "snd (construct c j w) = w\<lparr>trace := trace w @ map Construct cs1\<rparr>"
    and l1: "\<forall>x. fst (construct c j w) = Inr x \<longrightarrow> length cs1 = 1"
    using construct_world [of c j w] by blast
  obtain res1 w1 where r1: "construct c j w = (res1, w1)" by (cases "construct c j w")
  show ?case
  proof (cases res1)
    case (Inl e)
    then have "snd (construct_all c (j # items) w) = w\<lparr>trace := trace w @ map Construct cs1\<rparr>"
      and "fst (construct_all c (j # items) w) = Inl e"
      using r1 c1 by simp_all
    then show ?thesis by (metis sum.distinct(1))
  next
    case (Inr x)
    obtain cs2 where c2: "snd (construct_all c items w1) = w1\<lparr>trace := trace w1 @ map Construct cs2\<rparr>"
      and l2: "\<forall>xs. fst (construct_all c items w1) = Inr xs \<longrightarrow> length cs2 = length xs"
      using Cons.IH [of w1] by blast
    obtain res2 w2 where r2: "construct_all c items w1 = (res2, w2)" by (cases "construct_all c items w1")
    have w1: "w1 = w\<lparr>trace := trace w @ map Construct cs1\<rparr>" using r1 c1 by simp
    have len1: "length cs1 = 1" using l1 r1 Inr by simp
    have w2: "w2 = w\<lparr>trace := trace w @ map Construct (cs1 @ cs2)\<rparr>" using r2 c2 w1 by simp
    show ?thesis
    proof (cases res2)
      case (Inl e)
      then have "snd (construct_all c (j # items) w) = w2" and "fst (construct_all c (j # items) w) = Inl e"
        using r1 r2 Inr by simp_all
      then show ?thesis using w2 by (metis sum.distinct(1))
    next
      case (Inr xs)
      then have "snd (construct_all c (j # items) w) = w2" and "fst (construct_all c (j # items) w) = Inr (x # xs)"
        using r1 r2 \<open>res1 = Inr x\<close> by simp_all
      moreover have "length (cs1 @ cs2) = length (x # xs)" using len1 l2 r2 Inr by simp
      ultimately show ?thesis using w2 by (metis sum.inject(2))
    qed
  qed
qed

lemma CRUDClient_list_world:
  "\<exists>cs. snd (CRUDClient_list c off lim qp w) =
       (snd (merge_query qp off lim w))
         \<lparr>trace := trace w @ Get (base_url c) (Some (fst (merge_query qp off lim w))) # map Construct cs\<rparr>
     \<and> (\<forall>xs t. fst (CRUDClient_list c off lim qp w) = Inr (xs, t) \<longrightarrow> length cs = length xs)"
proof -
  obtain d w1 where mq: "merge_query qp off lim w = (d, w1)" by (cases "merge_query qp off lim w")
  have tr: "trace w1 = trace w" using mq merge_query_trace [of qp off lim w] by simp
  define w2 where "w2 = w1\<lparr>trace := trace w1 @ [Get (base_url c) (Some d)]\<rparr>"
  have w2: "w2 = w1\<lparr>trace := trace w @ Get (base_url c) (Some d) # map Construct []\<rparr>"
    by (simp add: w2_def tr)
  have early: ?thesis if "CRUDClient_list c off lim qp w = (Inl e, w2)" for e
    using that w2 mq by (metis fst_conv snd_conv sum.distinct(1))
  show ?thesis
  proof (cases "client c (trace w) (base_url c) (Some d)")
    case (Inl e)
    then show ?thesis by (intro early [of e]) (simp add: CRUDClient_list_def mq w2_def)
  next
    case (Inr response)
    note resp = this
    show ?thesis
    proof (cases "py_int (headers response ''x-total-count'')")
      case (Inl e)
      then show ?thesis by (intro early [of e]) (simp add: CRUDClient_list_def mq w2_def resp)
    next
      case (Inr t)
      note tot = this
      show ?thesis
      proof (cases "body response")
        case None
        then show ?thesis
          by (intro early [of JSONDecodeError]) (simp add: CRUDClient_list_def mq w2_def resp tot)
      next
        case (Some j)
        note bd = this
        show ?thesis
        proof (cases "py_iter j")
          case (Inl e)
          then show ?thesis
            by (intro early [of e]) (simp add: CRUDClient_list_def mq w2_def resp tot bd)
        next
          case (Inr items)
          obtain res w3 where ca: "construct_all c items w2 = (res, w3)"
            by (cases "construct_all c items w2")
          obtain cs where cs: "w3 = w2\<lparr>trace := trace w2 @ map Construct cs\<rparr>"
            and len: "\<forall>xs. res = Inr xs \<longrightarrow> length cs = length xs"
            using construct_all_world [of c items w2] ca by auto
          have w3: "w3 = w1\<lparr>trace := trace w @ Get (base_url c) (Some d) # map Construct cs\<rparr>"
            using cs by (simp add: w2_def tr)
          have "CRUDClient_list c off lim qp w =
                  ((case res of Inl e \<Rightarrow> Inl e | Inr xs \<Rightarrow> Inr (xs, t)), w3)"
            using ca by (simp add: CRUDClient_list_def mq w2_def [symmetric] resp tot bd Inr
                split: sum.splits)
          then show ?thesis using w3 len mq by (auto split: sum.splits)
        qed
      qed
    qed
  qed
qed

lemma CRUDClient_list_trace:
  "\<exists>cs. trace (snd (CRUDClient_list c off lim qp w)) =
       trace w @ Get (base_url c) (Some (dict_ior (supplied qp w) (reserved off lim))) # map Construct cs
     \<and> (\<forall>xs t. fst (CRUDClient_list c off lim qp w) = Inr (xs, t) \<longrightarrow> length cs = length xs)"
  using CRUDClient_list_world [of c off lim qp w] by (auto simp: fst_merge_query)

lemma CRUDClient_list_dicts:
  "dicts (snd (CRUDClient_list c off lim qp w)) =
     (case qp of
        None \<Rightarrow> dicts w
      | Some a \<Rightarrow> if dicts w a = [] then dicts w
                  else (dicts w)(a := dict_ior (dicts w a) (reserved off lim)))"
  using CRUDClient_list_world [of c off lim qp w] merge_query_dicts [of qp off lim w] by auto

lemma gets_append: "gets (t @ u) = gets t + gets u"
  by (simp add: gets_def)

lemma gets_Construct: "gets (map Construct cs) = 0"
  by (induction cs) (simp_all add: gets_def)

lemma CRUDClient_list_gets:
  "gets (trace (snd (CRUDClient_list c off lim qp w))) = gets (trace w) + 1"
proof -
  obtain cs where "trace (snd (CRUDClient_list c off lim qp w)) =
       trace w @ Get (base_url c) (Some (dict_ior (supplied qp w) (reserved off lim))) # map Construct cs"
    using CRUDClient_list_trace [of c off lim qp w] by blast
  then show ?thesis using gets_Construct [of cs] by (simp add: gets_def)
qed

lemma list_Some_dicts:
  "dicts w a \<noteq> [] \<Longrightarrow>
     dicts (snd (CRUDClient_list c off lim (Some a) w)) =
       (dicts w)(a := dict_ior (dicts w a) (reserved off lim))"
  by (simp add: CRUDClient_list_dicts)

lemma list_Some_carries:
  "dicts w a \<noteq> [] \<Longrightarrow>
     carries_reserved (dicts (snd (CRUDClient_list c off lim (Some a) w)) a) off lim"
  by (simp add: list_Some_dicts merged_carries_reserved)

lemma Result_next_dicts:
  "data r = [] \<Longrightarrow> dicts (snd (snd (Result_next r w))) =
     dicts (snd (CRUDClient_list (requests r) (offset r) (limit r) (query_params r) w))"
  by (auto simp: Result_next_def Result_fetch_next_def popleft_def Let_def
      split: prod.splits sum.splits list.splits)

lemma Result_len_dicts:
  "total' r = None \<Longrightarrow> dicts (snd (snd (Result_len r w))) =
     dicts (snd (CRUDClient_list (requests r) 0 0 (query_params r) w))"
  by (auto simp: Result_len_def split: prod.splits sum.splits)

subsection \<open>One step of \<open>__next__\<close>\<close>

lemma Result_next_buffered:
  "data r = x # xs \<Longrightarrow> Result_next r w = (Inr x, r\<lparr>data := xs\<rparr>, w)"
  by (simp add: Result_next_def popleft_def)

lemma Result_next_fetch_empty:
  "data r = [] \<Longrightarrow>
   CRUDClient_list (requests r) (offset r) (limit r) (query_params r) w = (Inr ([], t), w1) \<Longrightarrow>
   Result_next r w =
     (Inl StopIteration, r\<lparr>offset := offset r + limit r, data := [], total' := Some t\<rparr>, w1)"
  by (simp add: Result_next_def Result_fetch_next_def)

lemma Result_next_fetch_page:
  "data r = [] \<Longrightarrow>
   CRUDClient_list (requests r) (offset r) (limit r) (query_params r) w = (Inr (y # ys, t), w1) \<Longrightarrow>
   Result_next r w =
     (Inr y, r\<lparr>offset := offset r + limit r, data := ys, total' := Some t\<rparr>, w1)"
  by (simp add: Result_next_def Result_fetch_next_def popleft_def)

subsection \<open>The window server\<close>

text \<open>
  Over \<open>window_crud\<close> a listing call returns the requested window of the collection
  and its size, for every offset, limit, caller mapping and world.
\<close>

lemma construct_all_objects:
  "\<forall>kvs\<in>set xs. ''client'' \<notin> set (map fst kvs) \<Longrightarrow> constructor c = Inr \<Longrightarrow>
     fst (construct_all c (map JObject xs) w) = Inr xs"
proof (induction xs arbitrary: w)
  case Nil
  show ?case by simp
next
  case (Cons kvs xs)
  have "fst (construct_all c (map JObject xs) (w\<lparr>trace := trace w @ [Construct kvs]\<rparr>)) = Inr xs"
    using Cons by simp
  then show ?case using Cons.prems
    by (cases "construct_all c (map JObject xs) (w\<lparr>trace := trace w @ [Construct kvs]\<rparr>)")
       (simp add: construct_def)
qed

lemma window_crud_list:
  assumes "\<forall>kvs\<in>set es. ''client'' \<notin> set (map fst kvs)"
  shows "fst (CRUDClient_list (window_crud es) off lim qp w) =
           Inr (take (nat lim) (drop (nat off) es), int (length es))"
proof -
  obtain d w1 where mq: "merge_query qp off lim w = (d, w1)" by (cases "merge_query qp off lim w")
  have d: "d = dict_ior (supplied qp w) (reserved off lim)"
    using mq fst_merge_query [of qp off lim w] by simp
  have o: "py_int (map_of d ''offset'') = Inr off" and l: "py_int (map_of d ''limit'') = Inr lim"
    by (simp_all add: d map_of_merged py_int_py_str)
  let ?page = "take (nat lim) (drop (nat off) es)"
  have cl: "\<forall>kvs\<in>set ?page. ''client'' \<notin> set (map fst kvs)"
    using assms by (meson in_set_dropD in_set_takeD)
  have pg: "take (nat lim) (drop (nat off) (map JObject es)) = map JObject ?page"
    by (simp add: take_map drop_map)
  have ca: "fst (construct_all (window_crud es) (map JObject ?page) w') = Inr ?page" for w'
    using construct_all_objects [OF cl] by (simp add: window_crud_def)
  have cw: "client (window_crud es) = window_server (map JObject es)" by (simp add: window_crud_def)
  show ?thesis
    using ca [of "w1\<lparr>trace := trace w1 @ [Get (base_url (window_crud es)) (Some d)]\<rparr>"]
    by (cases "construct_all (window_crud es) (map JObject ?page)
                 (w1\<lparr>trace := trace w1 @ [Get (base_url (window_crud es)) (Some d)]\<rparr>)")
       (simp add: CRUDClient_list_def mq cw window_server_def o l py_int_py_str py_iter_def pg
          Let_def)
qed

subsection \<open>Counting pages\<close>

lemma ceil_step:
  fixes l n k :: nat
  assumes "0 < l" and "k < n"
  shows "(n - k + l - 1) div l = Suc ((n - (k + l) + l - 1) div l)"
proof (cases "l \<le> n - k")
  case True
  then have "n - k + l - 1 = (n - (k + l) + l - 1) + l" using assms by simp
  then have "(n - k + l - 1) div l = ((n - (k + l) + l - 1) + l) div l" by (rule arg_cong)
  also have "\<dots> = Suc ((n - (k + l) + l - 1) div l)" using assms(1) by (simp only: div_add_self2)
  finally show ?thesis .
next
  case False
  then have a: "n - (k + l) = 0" by simp
  have "l \<le> n - k + l - 1" "n - k + l - 1 < 2 * l" using assms False by simp_all
  then have "(n - k + l - 1) div l = 1"
    by (metis One_nat_def div_nat_eqI mult.commute mult_2 mult_Suc_right nat_mult_1_right plus_1_eq_Suc)
  moreover have "(l - 1) div l = 0" using assms(1) by simp
  ultimately show ?thesis using a by simp
qed

lemma ceil_div_bounds:
  fixes l n :: nat
  assumes "0 < l"
  shows "n \<le> ((n + l - 1) div l) * l \<and> ((n + l - 1) div l) * l < n + l"
proof -
  have a: "(n + l - 1) div l * l + (n + l - 1) mod l = n + l - 1" by simp
  have b: "(n + l - 1) mod l < l" using assms by simp
  show ?thesis using a b assms by linarith
qed

section \<open>Iterating a \<open>Result\<close> to exhaustion (C1)\<close>

text \<open>
  The invariant of the loop: from a \<open>Result\<close> at offset \<open>k\<close> with some buffer,
  the loop returns the buffer followed by the collection from \<open>k\<close> on, and issues one
  GET per remaining page and one more.
\<close>

lemma exhaust_window:
  fixes c :: "'a CRUDClient" and es :: "'a list" and l :: nat
  assumes l: "0 < l"
    and server: "\<And>k w. fst (CRUDClient_list c (int k) (int l) qp w) =
                   Inr (take l (drop k es), int (length es))"
  shows "requests r = c \<Longrightarrow> limit r = int l \<Longrightarrow> query_params r = qp \<Longrightarrow> offset r = int k \<Longrightarrow>
     m = length (data r) + (length es - k) \<Longrightarrow>
     \<exists>r1 w1. exhaust acc r w = Some (Inr (acc @ data r @ drop k es), r1, w1)
       \<and> gets (trace w1) = gets (trace w) + (length es - k + l - 1) div l + 1
       \<and> data r1 = [] \<and> total' r1 = Some (int (length es))
       \<and> offset r1 = int (k + l * ((length es - k + l - 1) div l + 1))
       \<and> (\<exists>d. last (trace w1) = Get (base_url c) (Some d)
              \<and> map_of d ''offset'' = Some (py_str (offset r1 - int l)))"
proof (induction m arbitrary: r w acc k rule: less_induct)
  case (less m)
  note r = less.prems(1-4)
  show ?case
  proof (cases "data r")
    case (Cons x xs)
    let ?r' = "r\<lparr>data := xs\<rparr>"
    have step: "exhaust acc r w = exhaust (acc @ [x]) ?r' w"
      by (subst exhaust.simps) (simp add: Result_next_buffered [OF Cons])
    have "length (data ?r') + (length es - k) < m" using less.prems(5) Cons by simp
    from less.IH [OF this, of ?r' k "acc @ [x]" w] r
    show ?thesis by (simp add: step Cons)
  next
    case Nil
    obtain res w' where lst: "CRUDClient_list c (int k) (int l) qp w = (res, w')"
      by (cases "CRUDClient_list c (int k) (int l) qp w")
    then have res: "res = Inr (take l (drop k es), int (length es))"
      using server [of k w] by simp
    have g: "gets (trace w') = gets (trace w) + 1"
      using CRUDClient_list_gets [of c "int k" "int l" qp w] lst by simp
    show ?thesis
    proof (cases "take l (drop k es)")
      case Nil_page: Nil
      then have dr: "drop k es = []" using l by simp
      then have kn: "length es - k = 0" by simp
      let ?r1 = "r\<lparr>offset := offset r + limit r, data := [], total' := Some (int (length es))\<rparr>"
      have nx: "Result_next r w = (Inl StopIteration, ?r1, w')"
        using Result_next_fetch_empty [OF Nil, of w "int (length es)" w'] lst res Nil_page r by simp
      have ex: "exhaust acc r w = Some (Inr acc, ?r1, w')"
        by (subst exhaust.simps) (simp add: nx)
      obtain cs where tr: "trace w' = trace w @
            Get (base_url c) (Some (dict_ior (supplied qp w) (reserved (int k) (int l)))) # map Construct cs"
        and len: "\<forall>xs t. res = Inr (xs, t) \<longrightarrow> length cs = length xs"
        using CRUDClient_list_trace [of c "int k" "int l" qp w] lst by auto
      have "cs = []" using len res Nil_page by simp
      then have lt: "last (trace w') =
           Get (base_url c) (Some (dict_ior (supplied qp w) (reserved (int k) (int l))))"
        using tr by simp
      have off: "map_of (dict_ior (supplied qp w) (reserved (int k) (int l))) ''offset'' = Some (py_str (int k))"
        by (simp add: map_of_merged)
      have "l - 1 < l" using l by simp
      then have "(l - 1) div l = 0" by simp
      then have c1: "(length es - k + l - 1) div l = 0" by (simp add: kn)
      have c2: "k + l * ((length es - k + l - 1) div l + 1) = k + l"
        unfolding c1 by simp
      have o1: "offset ?r1 = int (k + l * ((length es - k + l - 1) div l + 1))"
        unfolding c2 using r by simp
      have g0: "gets (trace w') = gets (trace w) + (length es - k + l - 1) div l + 1"
        unfolding c1 using g by simp
      have o2: "offset ?r1 - int l = int k" using r by simp
      have res0: "acc @ data r @ drop k es = acc" using Nil dr by simp
      have "exhaust acc r w = Some (Inr (acc @ data r @ drop k es), ?r1, w')
          \<and> gets (trace w') = gets (trace w) + (length es - k + l - 1) div l + 1
          \<and> data ?r1 = [] \<and> total' ?r1 = Some (int (length es))
          \<and> offset ?r1 = int (k + l * ((length es - k + l - 1) div l + 1))
          \<and> (\<exists>d. last (trace w') = Get (base_url c) (Some d)
              \<and> map_of d ''offset'' = Some (py_str (offset ?r1 - int l)))"
        unfolding res0 o2 using ex g0 o1 lt off by simp
      then show ?thesis by blast
    next
      case (Cons y ys)
      have kn: "k < length es" using Cons by (cases "k < length es") simp_all
      let ?r' = "r\<lparr>offset := offset r + limit r, data := ys, total' := Some (int (length es))\<rparr>"
      have nx: "Result_next r w = (Inr y, ?r', w')"
        using Result_next_fetch_page [OF Nil, of w y ys "int (length es)" w'] lst res Cons r by simp
      have step: "exhaust acc r w = exhaust (acc @ [y]) ?r' w'"
        by (subst exhaust.simps) (simp add: nx)
      have "length (y # ys) = min l (length es - k)" using Cons [symmetric] by simp
      then have "length ys + (length es - (k + l)) < length es - k" using kn l by (simp add: min_def split: if_splits)
      then have m: "length (data ?r') + (length es - (k + l)) < m" using less.prems(5) Nil by simp
      have r': "requests ?r' = c" "limit ?r' = int l" "query_params ?r' = qp" "offset ?r' = int (k + l)"
        using r by simp_all
      from less.IH [OF m r' refl, of "acc @ [y]" w']
      obtain r1 w1 where
        e: "exhaust (acc @ [y]) ?r' w' = Some (Inr ((acc @ [y]) @ data ?r' @ drop (k + l) es), r1, w1)"
        and g1: "gets (trace w1) = gets (trace w') + (length es - (k + l) + l - 1) div l + 1"
        and d1: "data r1 = []" and t1: "total' r1 = Some (int (length es))"
        and o1: "offset r1 = int (k + l + l * ((length es - (k + l) + l - 1) div l + 1))"
        and l1: "\<exists>d. last (trace w1) = Get (base_url c) (Some d)
              \<and> map_of d ''offset'' = Some (py_str (offset r1 - int l))"
        by blast
      have cs: "(length es - k + l - 1) div l = Suc ((length es - (k + l) + l - 1) div l)"
        using ceil_step [OF l kn] .
      have dd: "drop (k + l) es = drop l (drop k es)" by (simp add: add.commute)
      have "take l (drop k es) @ drop l (drop k es) = drop k es" by (rule append_take_drop_id)
      then have "y # ys @ drop (k + l) es = drop k es" unfolding dd Cons by simp
      then have ys: "(acc @ [y]) @ data ?r' @ drop (k + l) es = acc @ data r @ drop k es"
        using Nil by simp
      have g2: "gets (trace w1) = gets (trace w) + (length es - k + l - 1) div l + 1"
        using g1 g cs by simp
      have o2: "offset r1 = int (k + l * ((length es - k + l - 1) div l + 1))"
        using o1 cs by (simp add: algebra_simps)
      have "exhaust acc r w = Some (Inr (acc @ data r @ drop k es), r1, w1)"
        using e step unfolding ys by simp
      then show ?thesis using g2 d1 t1 o2 l1 by blast
    qed
  qed
qed

text \<open>
  C1: let every listing call at a non-negative offset return the window
  \<open>entities[offset : offset + limit]\<close> of a collection of \<open>N\<close> entities together with
  the total \<open>N\<close>, and let \<open>limit \<ge> 1\<close>. Then iterating a \<open>Result\<close> created at
  offset 0 to exhaustion returns: it yields exactly the collection, in order, and issues
  \<open>(N + limit - 1) div limit + 1\<close> GETs, that is \<open>\<lceil>N / limit\<rceil> + 1\<close> listing calls
  (\<open>ceil_div_bounds\<close>). The last event is the GET of the last call, at offset
  \<open>limit * \<lceil>N / limit\<rceil>\<close>: no entity was constructed after it, so that call returned the
  empty page.
\<close>

theorem exhaust_yields_all:
  assumes "1 \<le> lim"
    and "\<forall>off w. 0 \<le> off \<longrightarrow>
           fst (CRUDClient_list c off lim qp w) =
             Inr (take (nat lim) (drop (nat off) es), int (length es))"
  shows "\<exists>r1 w1. exhaust [] (Result_init 0 lim qp c) w = Some (Inr es, r1, w1)
      \<and> gets (trace w1) = gets (trace w) + (length es + nat lim - 1) div nat lim + 1
      \<and> data r1 = [] \<and> total' r1 = Some (int (length es))
      \<and> (\<exists>d. last (trace w1) = Get (base_url c) (Some d)
             \<and> map_of d ''offset'' =
                 Some (py_str (lim * int ((length es + nat lim - 1) div nat lim))))"
proof -
  define l where "l = nat lim"
  have nl: "nat lim = l" by (simp add: l_def)
  have il: "int l = lim" using assms(1) by (simp add: l_def)
  have l: "0 < l" using assms(1) by (simp add: l_def)
  have server: "fst (CRUDClient_list c (int k) (int l) qp w') =
                   Inr (take l (drop k es), int (length es))" for k w'
    using assms(2) [rule_format, of "int k" w'] by (simp add: il nl)
  let ?r = "Result_init 0 lim qp c"
  have r: "requests ?r = c" "limit ?r = int l" "query_params ?r = qp" "offset ?r = int 0"
    by (simp_all add: Result_init_def il)
  obtain r1 w1 where
    e: "exhaust [] ?r w = Some (Inr ([] @ data ?r @ drop 0 es), r1, w1)"
    and g: "gets (trace w1) = gets (trace w) + (length es - 0 + l - 1) div l + 1"
    and d: "data r1 = []" and t: "total' r1 = Some (int (length es))"
    and o: "offset r1 = int (0 + l * ((length es - 0 + l - 1) div l + 1))"
    and la: "\<exists>d. last (trace w1) = Get (base_url c) (Some d)
              \<and> map_of d ''offset'' = Some (py_str (offset r1 - int l))"
    using exhaust_window [OF l server r refl, of "[]" w] by blast
  have "offset r1 - int l = int l * int ((length es + l - 1) div l)"
    using o by (simp add: algebra_simps)
  then have la': "\<exists>d. last (trace w1) = Get (base_url c) (Some d)
              \<and> map_of d ''offset'' = Some (py_str (lim * int ((length es + nat lim - 1) div nat lim)))"
    using la unfolding nl by (simp add: il)
  have "exhaust [] ?r w = Some (Inr es, r1, w1)" using e by (simp add: Result_init_def)
  moreover have "gets (trace w1) = gets (trace w) + (length es + nat lim - 1) div nat lim + 1"
    using g unfolding nl by simp
  ultimately show ?thesis using d t la' by blast
qed

theorem exhaust_yields_all_witness:
  "\<exists>r1 w1. exhaust [] (Result_init 0 2 None
        (window_crud [[(''id'', JInt 1)], [(''id'', JInt 2)], [(''id'', JInt 3)],
                      [(''id'', JInt 4)], [(''id'', JInt 5)]])) world0 =
      Some (Inr [[(''id'', JInt 1)], [(''id'', JInt 2)], [(''id'', JInt 3)],
                 [(''id'', JInt 4)], [(''id'', JInt 5)]], r1, w1)
    \<and> gets (trace w1) = 4 \<and> data r1 = [] \<and> total' r1 = Some 5
    \<and> (\<exists>d. last (trace w1) = Get ''/things'' (Some d) \<and> map_of d ''offset'' = Some ''6'')"
proof -
  let ?es = "[[(''id'', JInt 1)], [(''id'', JInt 2)], [(''id'', JInt 3)],
              [(''id'', JInt 4)], [(''id'', JInt 5)]]"
  have a: "(1::int) \<le> 2" by simp
  have nc: "\<forall>kvs\<in>set ?es. ''client'' \<notin> set (map fst kvs)" by simp
  have b: "\<forall>off w. 0 \<le> off \<longrightarrow>
           fst (CRUDClient_list (window_crud ?es) off 2 None w) =
             Inr (take (nat 2) (drop (nat off) ?es), int (length ?es))"
    using window_crud_list [OF nc] by blast
  have s: "py_str 6 = ''6''" by (simp add: py_eval)
  have n: "(length ?es + nat 2 - 1) div nat 2 = 3" by simp
  have g0: "gets (trace world0) = 0" by (simp add: world0_def gets_def)
  have bu: "base_url (window_crud ?es) = ''/things''" by (simp add: window_crud_def)
  show ?thesis
    using exhaust_yields_all [OF a b, of world0] unfolding n g0 bu by (simp add: s)
qed

section \<open>\<open>CRUDClient.get\<close> and the response status (C2)\<close>

text \<open>
  C2 says that \<open>get\<close> on a transport whose response reports a non-success status
  fails and does not call the entity factory. The code never reads the status: a transport
  that returns a 404 response with a JSON object body makes \<open>get\<close> call the
  constructor on that body and return what it builds.
\<close>

theorem get_ignores_status_counterexample:
  "status not_found_response = 404 \<and>
   CRUDClient_get (static_crud not_found_response) ''abc'' world0 =
     (Inr [(''message'', JString ''not found'')],
      world0\<lparr>trace := [Get ''/things/abc'' None, Construct [(''message'', JString ''not found'')]]\<rparr>)"
  by (simp add: CRUDClient_get_def static_crud_def static_client_def not_found_response_def
      construct_def world0_def)

text \<open>
  C2 as amended: \<open>get\<close> issues one GET to \<open>base_url/entity_id\<close>. If the
  transport raises, the error propagates unchanged and the constructor is not called. If the
  transport returns a response, whatever its status, whose body is a JSON object without a
  \<open>client\<close> key, the constructor is called once on that object and its outcome is the
  outcome of \<open>get\<close>.
\<close>

theorem get_propagates_and_constructs:
  "(client c (trace w) (base_url c @ ''/'' @ entity_id) None = Inl e \<longrightarrow>
      CRUDClient_get c entity_id w =
        (Inl e, w\<lparr>trace := trace w @ [Get (base_url c @ ''/'' @ entity_id) None]\<rparr>))
   \<and> (client c (trace w) (base_url c @ ''/'' @ entity_id) None = Inr resp \<and>
      body resp = Some (JObject kvs) \<and> ''client'' \<notin> set (map fst kvs) \<longrightarrow>
      CRUDClient_get c entity_id w =
        (constructor c kvs,
         w\<lparr>trace := trace w @ [Get (base_url c @ ''/'' @ entity_id) None, Construct kvs]\<rparr>))"
  by (simp add: CRUDClient_get_def construct_def)

theorem get_propagates_and_constructs_witness:
  "CRUDClient_get (failing_crud (External ''NotFoundError'')) ''abc'' world0 =
     (Inl (External ''NotFoundError''), world0\<lparr>trace := [Get ''/things/abc'' None]\<rparr>)
   \<and> CRUDClient_get (static_crud not_found_response) ''abc'' world0 =
     (Inr [(''message'', JString ''not found'')],
      world0\<lparr>trace := [Get ''/things/abc'' None, Construct [(''message'', JString ''not found'')]]\<rparr>)"
proof -
  have a: "client (failing_crud (External ''NotFoundError'')) (trace world0)
             (base_url (failing_crud (External ''NotFoundError'')) @ ''/'' @ ''abc'') None
           = Inl (External ''NotFoundError'')"
    by (simp add: failing_crud_def)
  have b: "client (static_crud not_found_response) (trace world0)
             (base_url (static_crud not_found_response) @ ''/'' @ ''abc'') None = Inr not_found_response
        \<and> body not_found_response = Some (JObject [(''message'', JString ''not found'')])
        \<and> ''client'' \<notin> set (map fst [(''message'', JString ''not found'')])"
    by (simp add: static_crud_def static_client_def not_found_response_def)
  show ?thesis
    using get_propagates_and_constructs
            [of "failing_crud (External ''NotFoundError'')" world0 "''abc''"
                "External ''NotFoundError''" not_found_response "[]"] a
          get_propagates_and_constructs
            [of "static_crud not_found_response" world0 "''abc''"
                StopIteration not_found_response "[(''message'', JString ''not found'')]"] b
    by (simp add: failing_crud_def static_crud_def world0_def)
qed

section \<open>The outgoing listing request (C5)\<close>

text \<open>
  C5: the first event of a \<open>list\<close> call is a GET to the base path whose query
  parameters carry the reserved values for \<open>offset\<close>, \<open>limit\<close>,
  \<open>archived\<close> and \<open>sortBy[createdAt]\<close>, whatever the caller supplied for these
  keys, and agree with the caller's mapping on every other key. Only constructor events follow
  it.
\<close>

theorem list_request_reserved_keys_win:
  "\<exists>d cs. trace (snd (CRUDClient_list c off lim qp w)) =
            trace w @ Get (base_url c) (Some d) # map Construct cs
     \<and> carries_reserved d off lim
     \<and> (\<forall>k. \<not> reserved_key k \<longrightarrow> map_of d k = map_of (supplied qp w) k)"
proof -
  obtain cs where "trace (snd (CRUDClient_list c off lim qp w)) =
       trace w @ Get (base_url c) (Some (dict_ior (supplied qp w) (reserved off lim))) # map Construct cs"
    using CRUDClient_list_trace [of c off lim qp w] by blast
  then show ?thesis
    using merged_carries_reserved [of "supplied qp w" off lim] merged_pass_through
    by blast
qed

theorem list_request_reserved_keys_win_witness:
  "\<exists>d cs. trace (snd (CRUDClient_list (window_crud []) 4 2 (Some 0)
              \<lparr>dicts = (\<lambda>a. [(''limit'', ''999''), (''name'', ''x'')]), trace = []\<rparr>)) =
            Get ''/things'' (Some d) # map Construct cs
     \<and> map_of d ''limit'' = Some ''2'' \<and> map_of d ''offset'' = Some ''4''
     \<and> map_of d ''name'' = Some ''x''"
proof -
  let ?w = "\<lparr>dicts = (\<lambda>a. [(''limit'', ''999''), (''name'', ''x'')]), trace = []\<rparr>"
  have nr: "\<not> reserved_key ''name''" by (simp add: reserved_key_def)
  have s2: "py_str 2 = ''2''"  and s4: "py_str 4 = ''4''"
    by (simp_all add: py_str_def digits10.simps digit_char_def)
  obtain d cs where t: "trace (snd (CRUDClient_list (window_crud []) 4 2 (Some 0) ?w)) =
            trace ?w @ Get (base_url (window_crud [])) (Some d) # map Construct cs"
     and r: "carries_reserved d 4 2"
     and p: "\<forall>k. \<not> reserved_key k \<longrightarrow> map_of d k = map_of (supplied (Some 0) ?w) k"
    using list_request_reserved_keys_win [of "window_crud []" 4 2 "Some 0" ?w] by blast
  have "map_of d ''name'' = Some ''x''" using p nr by (simp add: supplied_def)
  moreover have "map_of d ''limit'' = Some ''2''" "map_of d ''offset'' = Some ''4''"
    using r s2 s4 by (simp_all add: carries_reserved_def)
  moreover have "trace (snd (CRUDClient_list (window_crud []) 4 2 (Some 0) ?w)) =
            Get ''/things'' (Some d) # map Construct cs"
    using t by (simp add: window_crud_def)
  ultimately show ?thesis by blast
qed

section \<open>A missing or malformed total (C8)\<close>

text \<open>
  C8 says that \<open>list\<close> fails whenever the value of \<open>x-total-count\<close> is not a
  decimal integer string. The value \<open>1_0\<close> is not one, yet \<open>int\<close> reads it as 10:
  the listing call returns, with total 10.
\<close>

theorem list_accepts_grouped_total_counterexample:
  "headers grouped_total_response ''x-total-count'' = Some ''1_0''
   \<and> \<not> decimal_integer_string ''1_0''
   \<and> CRUDClient_list (static_crud grouped_total_response) 0 10 None world0 =
       (Inr ([], 10),
        world0\<lparr>trace := [Get ''/things'' (Some [(''offset'', ''0''), (''limit'', ''10''),
                   (''archived'', ''false''), (''sortBy[createdAt]'', ''desc'')])]\<rparr>)"
  by (simp add: py_eval crud_eval grouped_total_response_def decimal_integer_string_def)

text \<open>
  C8 as amended: when the transport returns a response whose \<open>x-total-count\<close> header
  is missing, or has a value without the syntax that \<open>int\<close> accepts in base 10 (between
  optional white space, an optional sign and then digits, where single underscores may
  separate digits), \<open>list\<close> raises, \<open>TypeError\<close> for the missing header and
  \<open>ValueError\<close> otherwise, right after the GET: no entity is constructed and no result
  is returned. Every decimal integer string has that syntax
  (\<open>decimal_integer_string_int_syntax\<close>), so these values are among those of the claim.
\<close>

theorem list_fails_on_malformed_total:
  assumes "client c (trace w) (base_url c) (Some (dict_ior (supplied qp w) (reserved off lim))) = Inr resp"
    and "headers resp ''x-total-count'' = None
         \<or> (\<exists>s. headers resp ''x-total-count'' = Some s \<and> \<not> int_syntax s)"
  shows "fst (CRUDClient_list c off lim qp w) =
           Inl (if headers resp ''x-total-count'' = None then TypeError else ValueError)
         \<and> trace (snd (CRUDClient_list c off lim qp w)) =
             trace w @ [Get (base_url c) (Some (dict_ior (supplied qp w) (reserved off lim)))]"
proof -
  obtain d w1 where mq: "merge_query qp off lim w = (d, w1)" by (cases "merge_query qp off lim w")
  have d: "d = dict_ior (supplied qp w) (reserved off lim)"
    using mq fst_merge_query [of qp off lim w] by simp
  have tr: "trace w1 = trace w" using mq merge_query_trace [of qp off lim w] by simp
  have pi: "py_int (headers resp ''x-total-count'') =
          Inl (if headers resp ''x-total-count'' = None then TypeError else ValueError)"
  proof (cases "headers resp ''x-total-count''")
    case None
    then show ?thesis by (simp add: py_int_def)
  next
    case (Some s)
    then have "\<not> int_syntax s" using assms(2) by simp
    then have "int_literal s = None" using int_literal_None by blast
    then show ?thesis using Some by (simp add: py_int_def)
  qed
  show ?thesis
    using assms(1) by (simp add: CRUDClient_list_def mq d [symmetric] pi tr del: fun_upd_apply)
qed

theorem list_fails_on_malformed_total_witness:
  "fst (CRUDClient_list (static_crud bad_total_response) 0 10 None world0) = Inl ValueError
   \<and> fst (CRUDClient_list (static_crud not_found_response) 0 10 None world0) = Inl TypeError"
proof -
  let ?c = "static_crud bad_total_response"
  let ?n = "static_crud not_found_response"
  have h1: "client ?c (trace world0) (base_url ?c)
               (Some (dict_ior (supplied None world0) (reserved 0 10))) = Inr bad_total_response"
    by (simp add: static_crud_def static_client_def)
  have nd: "\<not> int_syntax ''12a''"
    by (simp add: int_syntax_def digit_group_def py_strip_def py_isspace_def is_digit_def)
  have h2: "headers bad_total_response ''x-total-count'' = None
         \<or> (\<exists>s. headers bad_total_response ''x-total-count'' = Some s \<and> \<not> int_syntax s)"
    using nd by (simp add: bad_total_response_def)
  have k1: "client ?n (trace world0) (base_url ?n)
               (Some (dict_ior (supplied None world0) (reserved 0 10))) = Inr not_found_response"
    by (simp add: static_crud_def static_client_def)
  have k2: "headers not_found_response ''x-total-count'' = None
         \<or> (\<exists>s. headers not_found_response ''x-total-count'' = Some s \<and> \<not> int_syntax s)"
    by (simp add: not_found_response_def)
  show ?thesis
    using list_fails_on_malformed_total [OF h1 h2] list_fails_on_malformed_total [OF k1 k2]
    by (simp add: bad_total_response_def not_found_response_def)
qed

section \<open>In-place update of the caller's mapping (C10)\<close>

text \<open>
  C10: a \<open>list\<close> call given a non-empty \<open>dict\<close> updates that object in place;
  afterwards it carries the four reserved entries with the values of this call, and no other
  \<open>dict\<close> has changed. The same holds for the \<open>dict\<close> a \<open>Result\<close> stores,
  after a fetch by \<open>__next__\<close> and after a size query.
\<close>

theorem list_mutates_caller_mapping:
  assumes "dicts w a \<noteq> []"
  shows "dicts (snd (CRUDClient_list c off lim (Some a) w)) =
           (dicts w)(a := dict_ior (dicts w a) (reserved off lim))
     \<and> carries_reserved (dicts (snd (CRUDClient_list c off lim (Some a) w)) a) off lim
     \<and> (query_params r = Some a \<and> data r = [] \<longrightarrow>
          carries_reserved (dicts (snd (snd (Result_next r w))) a) (offset r) (limit r))
     \<and> (query_params r = Some a \<and> total' r = None \<longrightarrow>
          carries_reserved (dicts (snd (snd (Result_len r w))) a) 0 0)"
  using list_Some_dicts [OF assms, of c off lim] list_Some_carries [OF assms, of c off lim]
    list_Some_carries [OF assms, of "requests r" "offset r" "limit r"]
    list_Some_carries [OF assms, of "requests r" 0 0]
    Result_next_dicts [of r w] Result_len_dicts [of r w]
  by simp

theorem list_mutates_caller_mapping_witness:
  "dicts (snd (CRUDClient_list (window_crud []) 4 2 (Some 0)
       (world0\<lparr>dicts := (dicts world0)(0 := [(''limit'', ''999''), (''name'', ''x'')])\<rparr>))) 0 =
     [(''limit'', ''2''), (''name'', ''x''), (''offset'', ''4''), (''archived'', ''false''),
      (''sortBy[createdAt]'', ''desc'')]"
proof -
  let ?w = "world0\<lparr>dicts := (dicts world0)(0 := [(''limit'', ''999''), (''name'', ''x'')])\<rparr>"
  have a: "dicts ?w 0 \<noteq> []" by simp
  have s: "py_str 4 = ''4''" "py_str 2 = ''2''" by (simp_all add: py_eval)
  show ?thesis
    using list_mutates_caller_mapping [OF a, of "window_crud []" 4 2 "Result_init 0 0 None (window_crud [])"]
    by (simp add: dict_ior_def reserved_def s)
qed

section \<open>\<open>Result\<close>: errors during a fetch (C9)\<close>

text \<open>
  C9: if the listing call of a page fetch raises, \<open>__next__\<close> raises the same error and
  leaves the \<open>Result\<close> as it was (offset, buffer and total included). Conversely the
  offset changes only when the buffer was empty and the listing call returned: it then grows
  by \<open>limit\<close>, the total is the one reported, and the buffer holds the page without the
  entity handed out.
\<close>

theorem next_fetch_atomic_on_error:
  "(data r = [] \<and> fst (CRUDClient_list (requests r) (offset r) (limit r) (query_params r) w) = Inl e
      \<longrightarrow> Result_next r w =
            (Inl e, r, snd (CRUDClient_list (requests r) (offset r) (limit r) (query_params r) w)))
   \<and> (offset (fst (snd (Result_next r w))) \<noteq> offset r
      \<longrightarrow> data r = [] \<and>
          (\<exists>entities t.
             fst (CRUDClient_list (requests r) (offset r) (limit r) (query_params r) w) = Inr (entities, t)
             \<and> offset (fst (snd (Result_next r w))) = offset r + limit r
             \<and> total' (fst (snd (Result_next r w))) = Some t
             \<and> data (fst (snd (Result_next r w))) = tl entities))"
proof -
  obtain res w1 where l: "CRUDClient_list (requests r) (offset r) (limit r) (query_params r) w = (res, w1)"
    by (cases "CRUDClient_list (requests r) (offset r) (limit r) (query_params r) w")
  show ?thesis
  proof (cases "data r")
    case Nil
    show ?thesis
    proof (cases res)
      case (Inl e')
      then show ?thesis using Nil l by (simp add: Result_next_def Result_fetch_next_def)
    next
      case (Inr p)
      obtain entities t where p: "p = (entities, t)" by (cases p)
      show ?thesis
        using Nil l Inr p
        by (cases entities) (simp_all add: Result_next_def Result_fetch_next_def popleft_def)
    qed
  next
    case (Cons x xs)
    then show ?thesis by (simp add: Result_next_def popleft_def)
  qed
qed

theorem next_fetch_atomic_on_error_witness:
  "Result_next (Result_init 0 10 None (static_crud bad_total_response)) world0 =
     (Inl ValueError, Result_init 0 10 None (static_crud bad_total_response),
      snd (CRUDClient_list (static_crud bad_total_response) 0 10 None world0))
   \<and> offset (fst (snd (Result_next (Result_init 0 2 None (window_crud [[(''id'', JInt 1)]])) world0))) = 2"
proof -
  let ?r = "Result_init 0 10 None (static_crud bad_total_response)"
  let ?q = "Result_init 0 2 None (window_crud [[(''id'', JInt 1)]])"
  have a: "data ?r = [] \<and> fst (CRUDClient_list (requests ?r) (offset ?r) (limit ?r) (query_params ?r) world0) = Inl ValueError"
    by (simp add: py_eval crud_eval result_eval)
  have b: "offset (fst (snd (Result_next ?q world0))) \<noteq> offset ?q"
    by (simp add: py_eval crud_eval result_eval)
  have c: "offset ?q + limit ?q = 2" by (simp add: Result_init_def)
  show ?thesis
    using next_fetch_atomic_on_error [of ?r world0 ValueError] a
          next_fetch_atomic_on_error [of ?q world0 ValueError] b c
    by (auto simp add: Result_init_def)
qed

section \<open>\<open>Result\<close>: the size query (C6, C7)\<close>

text \<open>
  C7: a size query on a \<open>Result\<close> whose total is unknown leaves the buffer and the
  offset as they were; the only field of the \<open>Result\<close> that may differ afterwards is the
  total, which is the one reported by the listing call at offset 0 and limit 0.
\<close>

theorem len_frame:
  assumes "total' r = None" and "Result_len r w = (res, r1, w1)"
  shows "data r1 = data r \<and> offset r1 = offset r \<and> r1 = r\<lparr>total' := total' r1\<rparr>
     \<and> (\<forall>t. res = Inr t \<longrightarrow>
           total' r1 = Some t
           \<and> (\<exists>xs. CRUDClient_list (requests r) 0 0 (query_params r) w = (Inr (xs, t), w1)))"
  using assms by (auto simp: Result_len_def split: prod.splits sum.splits)

theorem len_frame_witness:
  "Result_len ((Result_init 4 2 None (window_crud [[(''id'', JInt 1)]]))\<lparr>data := [[(''id'', JInt 0)]]\<rparr>) world0 =
     (Inr 1,
      (Result_init 4 2 None (window_crud [[(''id'', JInt 1)]]))\<lparr>data := [[(''id'', JInt 0)]], total' := Some 1\<rparr>,
      world0\<lparr>trace := [Get ''/things'' (Some [(''offset'', ''0''), (''limit'', ''0''),
                 (''archived'', ''false''), (''sortBy[createdAt]'', ''desc'')])]\<rparr>)
   \<and> offset ((Result_init 4 2 None (window_crud [[(''id'', JInt 1)]]))\<lparr>data := [[(''id'', JInt 0)]], total' := Some 1\<rparr>) = 4
   \<and> data ((Result_init 4 2 None (window_crud [[(''id'', JInt 1)]]))\<lparr>data := [[(''id'', JInt 0)]], total' := Some 1\<rparr>) = [[(''id'', JInt 0)]]"
proof -
  let ?r = "(Result_init 4 2 None (window_crud [[(''id'', JInt 1)]]))\<lparr>data := [[(''id'', JInt 0)]]\<rparr>"
  let ?r1 = "(Result_init 4 2 None (window_crud [[(''id'', JInt 1)]]))\<lparr>data := [[(''id'', JInt 0)]], total' := Some 1\<rparr>"
  let ?w1 = "world0\<lparr>trace := [Get ''/things'' (Some [(''offset'', ''0''), (''limit'', ''0''),
                 (''archived'', ''false''), (''sortBy[createdAt]'', ''desc'')])]\<rparr>"
  have a: "total' ?r = None" by (simp add: Result_init_def)
  have b: "Result_len ?r world0 = (Inr 1, ?r1, ?w1)"
    by (simp add: py_eval crud_eval result_eval)
  show ?thesis
    using len_frame [OF a b] b by (simp add: Result_init_def)
qed

text \<open>
  C6: let the total be unknown and let the listing call at offset 0 and limit 0 return a
  total \<open>n\<close>. Then the first size query makes that call, returns \<open>n\<close> and stores it,
  and a second size query on the \<open>Result\<close> it leaves returns \<open>n\<close> again and changes
  nothing. Over both queries exactly one GET is issued.
\<close>

theorem len_memoized:
  assumes "total' r = None"
    and "CRUDClient_list (requests r) 0 0 (query_params r) w = (Inr (xs, n), w1)"
  shows "Result_len r w = (Inr n, r\<lparr>total' := Some n\<rparr>, w1)
     \<and> Result_len (r\<lparr>total' := Some n\<rparr>) w1 = (Inr n, r\<lparr>total' := Some n\<rparr>, w1)
     \<and> gets (trace w1) = gets (trace w) + 1"
proof -
  have "gets (trace w1) = gets (trace w) + 1"
    using CRUDClient_list_gets [of "requests r" 0 0 "query_params r" w] assms(2) by simp
  moreover have "Result_len r w = (Inr n, r\<lparr>total' := Some n\<rparr>, w1)"
    using assms by (simp add: Result_len_def)
  moreover have "Result_len (r\<lparr>total' := Some n\<rparr>) w1 = (Inr n, r\<lparr>total' := Some n\<rparr>, w1)"
    by (simp add: Result_len_def)
  ultimately show ?thesis by blast
qed

theorem len_memoized_witness:
  "Result_len (Result_init 0 2 None (window_crud [[(''id'', JInt 1)]])) world0 =
     (Inr 1, (Result_init 0 2 None (window_crud [[(''id'', JInt 1)]]))\<lparr>total' := Some 1\<rparr>,
      world0\<lparr>trace := [Get ''/things'' (Some [(''offset'', ''0''), (''limit'', ''0''),
                 (''archived'', ''false''), (''sortBy[createdAt]'', ''desc'')])]\<rparr>)
   \<and> Result_len ((Result_init 0 2 None (window_crud [[(''id'', JInt 1)]]))\<lparr>total' := Some 1\<rparr>)
      (world0\<lparr>trace := [Get ''/things'' (Some [(''offset'', ''0''), (''limit'', ''0''),
                 (''archived'', ''false''), (''sortBy[createdAt]'', ''desc'')])]\<rparr>) =
     (Inr 1, (Result_init 0 2 None (window_crud [[(''id'', JInt 1)]]))\<lparr>total' := Some 1\<rparr>,
      world0\<lparr>trace := [Get ''/things'' (Some [(''offset'', ''0''), (''limit'', ''0''),
                 (''archived'', ''false''), (''sortBy[createdAt]'', ''desc'')])]\<rparr>)
   \<and> gets (trace (world0\<lparr>trace := [Get ''/things'' (Some [(''offset'', ''0''), (''limit'', ''0''),
                 (''archived'', ''false''), (''sortBy[createdAt]'', ''desc'')])]\<rparr>)) = gets (trace world0) + 1"
proof -
  let ?r = "Result_init 0 2 None (window_crud [[(''id'', JInt 1)]])"
  let ?w1 = "world0\<lparr>trace := [Get ''/things'' (Some [(''offset'', ''0''), (''limit'', ''0''),
                 (''archived'', ''false''), (''sortBy[createdAt]'', ''desc'')])]\<rparr>"
  have a: "total' ?r = None" by (simp add: Result_init_def)
  have b: "CRUDClient_list (requests ?r) 0 0 (query_params ?r) world0 = (Inr ([], 1), ?w1)"
    by (simp add: py_eval crud_eval result_eval)
  show ?thesis
    using len_memoized [OF a b] by simp
qed

section \<open>\<open>Result.is_empty\<close> (C4)\<close>

text \<open>
  \<open>is_empty\<close> compares the stored total with 0 and takes no step to resolve it. Once the
  total is known it answers whether it is 0; while it is unknown it answers \<open>False\<close>.
\<close>

lemma is_empty_known: "total' r = Some t \<Longrightarrow> Result_is_empty r = (t = 0)"
  by (simp add: Result_is_empty_def)

lemma is_empty_never_fetches: "total' r = None \<Longrightarrow> Result_is_empty r = False"
  by (simp add: Result_is_empty_def)

text \<open>
  C4 at a fresh \<open>Result\<close> over an empty collection: \<open>is_empty\<close> answers
  \<open>False\<close>, although the size query on the same \<open>Result\<close> reports a total of 0.
\<close>

theorem is_empty_unresolved:
  "Result_is_empty (Result_init 0 10 None (window_crud [])) = False
   \<and> fst (Result_len (Result_init 0 10 None (window_crud [])) world0) = Inr 0"
  by (simp add: py_eval crud_eval result_eval)

section \<open>\<open>Result\<close>: after the end of the sequence (C3)\<close>

text \<open>
  C3 says that \<open>__next__\<close> after the end of the sequence issues no further listing
  call. Over an empty collection with limit 2, the first \<open>__next__\<close> raises
  \<open>StopIteration\<close> after one GET at offset 0; the second raises it again after a second
  GET, at offset 2.
\<close>

theorem next_after_exhaustion_counterexample:
  "Result_next (Result_init 0 2 None (window_crud [])) world0 =
     (Inl StopIteration,
      (Result_init 2 2 None (window_crud []))\<lparr>total' := Some 0\<rparr>,
      world0\<lparr>trace := [Get ''/things'' (Some [(''offset'', ''0''), (''limit'', ''2''),
                 (''archived'', ''false''), (''sortBy[createdAt]'', ''desc'')])]\<rparr>)
   \<and> Result_next ((Result_init 2 2 None (window_crud []))\<lparr>total' := Some 0\<rparr>)
       (world0\<lparr>trace := [Get ''/things'' (Some [(''offset'', ''0''), (''limit'', ''2''),
                 (''archived'', ''false''), (''sortBy[createdAt]'', ''desc'')])]\<rparr>) =
     (Inl StopIteration,
      (Result_init 4 2 None (window_crud []))\<lparr>total' := Some 0\<rparr>,
      world0\<lparr>trace := [Get ''/things'' (Some [(''offset'', ''0''), (''limit'', ''2''),
                 (''archived'', ''false''), (''sortBy[createdAt]'', ''desc'')]),
               Get ''/things'' (Some [(''offset'', ''2''), (''limit'', ''2''),
                 (''archived'', ''false''), (''sortBy[createdAt]'', ''desc'')])]\<rparr>)"
  by (simp add: py_eval crud_eval result_eval)

text \<open>
  C3 as amended: \<open>__next__\<close> on a \<open>Result\<close> with an empty buffer, as it is after
  the end of the sequence was signalled, issues exactly one further listing call, at the
  current offset. If that call returns no entity, \<open>StopIteration\<close> is raised again and
  the offset grows by \<open>limit\<close>; if it returns entities, the first one is handed out.
\<close>

theorem next_after_exhaustion:
  assumes "data r = []"
  shows "gets (trace (snd (snd (Result_next r w)))) = gets (trace w) + 1
   \<and> (\<forall>t. fst (CRUDClient_list (requests r) (offset r) (limit r) (query_params r) w) = Inr ([], t)
        \<longrightarrow> fst (Result_next r w) = Inl StopIteration
          \<and> fst (snd (Result_next r w)) = r\<lparr>offset := offset r + limit r, total' := Some t\<rparr>)
   \<and> (\<forall>x xs t. fst (CRUDClient_list (requests r) (offset r) (limit r) (query_params r) w) = Inr (x # xs, t)
        \<longrightarrow> fst (Result_next r w) = Inr x
          \<and> fst (snd (Result_next r w)) = r\<lparr>offset := offset r + limit r, data := xs, total' := Some t\<rparr>)"
proof -
  obtain res w1 where l: "CRUDClient_list (requests r) (offset r) (limit r) (query_params r) w = (res, w1)"
    by (cases "CRUDClient_list (requests r) (offset r) (limit r) (query_params r) w")
  have g: "gets (trace w1) = gets (trace w) + 1"
    using CRUDClient_list_gets [of "requests r" "offset r" "limit r" "query_params r" w] l by simp
  show ?thesis
  proof (cases res)
    case (Inl e)
    then show ?thesis using assms l g by (simp add: Result_next_def Result_fetch_next_def)
  next
    case (Inr p)
    obtain entities t where p: "p = (entities, t)" by (cases p)
    show ?thesis
      using assms l g Inr p
      by (cases entities) (simp_all add: Result_next_def Result_fetch_next_def popleft_def)
  qed
qed

theorem next_after_exhaustion_witness:
  "gets (trace (snd (snd (Result_next ((Result_init 2 2 None (window_crud []))\<lparr>total' := Some 0\<rparr>)
       (world0\<lparr>trace := [Get ''/things'' (Some [(''offset'', ''0''), (''limit'', ''2''),
                 (''archived'', ''false''), (''sortBy[createdAt]'', ''desc'')])]\<rparr>))))) = 2
   \<and> fst (Result_next ((Result_init 2 2 None (window_crud []))\<lparr>total' := Some 0\<rparr>)
       (world0\<lparr>trace := [Get ''/things'' (Some [(''offset'', ''0''), (''limit'', ''2''),
                 (''archived'', ''false''), (''sortBy[createdAt]'', ''desc'')])]\<rparr>)) = Inl StopIteration"
proof -
  let ?r = "(Result_init 2 2 None (window_crud []))\<lparr>total' := Some 0\<rparr>"
  let ?w = "world0\<lparr>trace := [Get ''/things'' (Some [(''offset'', ''0''), (''limit'', ''2''),
                 (''archived'', ''false''), (''sortBy[createdAt]'', ''desc'')])]\<rparr>"
  have a: "data ?r = []" by (simp add: Result_init_def)
  have b: "fst (CRUDClient_list (requests ?r) (offset ?r) (limit ?r) (query_params ?r) ?w) = Inr ([], 0)"
    by (simp add: py_eval crud_eval result_eval)
  have c: "gets (trace ?w) = 1" by (simp add: gets_def)
  show ?thesis
    using next_after_exhaustion [OF a, of ?w] b c by simp
qed

end
